theory Spec2Isabelle
  imports Complex_Main "HOL-Library.AList" "HOL-Library.Multiset"
begin

section \<open>Smart traffic signal optimisation: the detection-to-decision pipeline\<close>

text \<open>
  A shallow embedding of the two functions of \<^verbatim>\<open>app.py\<close> that carry the domain
  logic, \<^verbatim>\<open>process_frame\<close> and \<^verbatim>\<open>traffic_logic\<close>, and of the two page
  sections that call them. The detector (the YOLO model object) is an external library:
  it enters the model as a record of functions, and nothing is assumed about it unless a
  theorem says so.
\<close>

subsection \<open>Strings\<close>

text \<open>
  Python strings are sequences of code points; a HOL \<^typ>\<open>string\<close> is a list of
  bytes. The three status strings of \<^verbatim>\<open>traffic_logic\<close> start with a coloured
  circle outside ASCII, written here as its UTF-8 bytes: U+1F7E2 (green), U+1F7E1
  (yellow), U+1F534 (red).
\<close>

definition green_circle :: string where
  "green_circle = [CHR 0xF0, CHR 0x9F, CHR 0x9F, CHR 0xA2]"

definition yellow_circle :: string where
  "yellow_circle = [CHR 0xF0, CHR 0x9F, CHR 0x9F, CHR 0xA1]"

definition red_circle :: string where
  "red_circle = [CHR 0xF0, CHR 0x9F, CHR 0x94, CHR 0xB4]"

subsection \<open>Traffic logic\<close>

text \<open>
  \<^verbatim>\<open>
  def traffic_logic(vehicle_count):
      if vehicle_count <= 10: return "LOW",15,"<green> Smooth Traffic"
      elif vehicle_count <= 25: return "MEDIUM",30,"<yellow> Moderate Traffic"
      else: return "HIGH",45,"<red> Heavy Congestion"
  \<close>
  The count is a Python integer, unbounded, hence \<^typ>\<open>int\<close>. The result is the
  triple of density, green time in seconds and status string.
\<close>

definition traffic_logic :: "int \<Rightarrow> string \<times> int \<times> string" where
  "traffic_logic vehicle_count =
     (if vehicle_count \<le> 10 then (''LOW'', 15, green_circle @ '' Smooth Traffic'')
      else if vehicle_count \<le> 25 then (''MEDIUM'', 30, yellow_circle @ '' Moderate Traffic'')
      else (''HIGH'', 45, red_circle @ '' Heavy Congestion''))"

subsection \<open>The store of image buffers\<close>

text \<open>
  Frames are numpy arrays, passed by reference. An array is an address into a store of
  buffers; a buffer is the flat list of its bytes. Allocation takes the next unused
  address, so the addresses below \<open>nxt\<close> are the allocated ones.
\<close>

type_synonym addr = nat

type_synonym image = "nat list"

record store =
  mem :: "addr \<Rightarrow> image"
  nxt :: addr

definition alloc :: "store \<Rightarrow> image \<Rightarrow> store \<times> addr" where
  "alloc st img = (st\<lparr>mem := (mem st)(nxt st := img), nxt := Suc (nxt st)\<rparr>, nxt st)"

text \<open>\<^verbatim>\<open>frame.copy()\<close>: a new array with the same contents.\<close>

definition np_copy :: "store \<Rightarrow> addr \<Rightarrow> store \<times> addr" where
  "np_copy st a = alloc st (mem st a)"

subsection \<open>The detector\<close>

text \<open>
  What \<^verbatim>\<open>process_frame\<close> reads of the library's objects: of a box its class index
  \<^verbatim>\<open>int(box.cls[0])\<close> (the confidence is carried along and never read), of a result
  its boxes and its \<^verbatim>\<open>plot()\<close> method, of the model its \<^verbatim>\<open>names\<close> dictionary
  and its \<^verbatim>\<open>predict\<close> method. Looking up a class index that \<^verbatim>\<open>names\<close> lacks
  raises \<^verbatim>\<open>KeyError\<close>; an exception raised inside \<^verbatim>\<open>predict\<close> is
  \<open>PredictError\<close>.
\<close>

datatype error = PredictError | KeyError int

record box =
  cls :: int
  conf :: real

record result =
  orig_img :: addr
  boxes :: "box list"

record predict_args =
  imgsz :: nat
  conf_kw :: real
  iou :: real
  classes :: "int list"
  verbose :: bool

record model =
  names :: "int \<Rightarrow> string option"
  predict :: "predict_args \<Rightarrow> store \<Rightarrow> addr \<Rightarrow> error + (store \<times> result list)"
  plot :: "result \<Rightarrow> store \<Rightarrow> store \<times> addr"

subsection \<open>Vehicle detection\<close>

text \<open>
  \<^verbatim>\<open>
  def process_frame(frame):
      results = model.predict(source=frame, imgsz=1280, conf=0.25, iou=0.5,
                              classes=[1,2,3,5,7], verbose=False)
      vehicle_count = 0
      vehicle_types = {"car":0,"truck":0,"bus":0,"motorcycle":0,"bicycle":0}
      annotated = frame.copy()
      for result in results:
          annotated = result.plot()
          for box in result.boxes:
              cls = int(box.cls[0])
              label = model.names[cls]
              if label in vehicle_types:
                  vehicle_types[label] += 1
                  vehicle_count += 1
      return annotated, vehicle_count, vehicle_types
  \<close>
  The dictionary \<^verbatim>\<open>vehicle_types\<close> is an association list in insertion order;
  \<^verbatim>\<open>label in vehicle_types\<close> and the read of \<^verbatim>\<open>vehicle_types[label]\<close> are one
  \<^const>\<open>map_of\<close>, the write is \<^const>\<open>AList.update\<close>, which keeps the position of
  the key. The inner loop is \<open>box_loop\<close>, the outer one \<open>result_loop\<close>.
\<close>

type_synonym tally = "int \<times> (string \<times> int) list"

definition vehicle_types0 :: "(string \<times> int) list" where
  "vehicle_types0 =
     [(''car'', 0), (''truck'', 0), (''bus'', 0), (''motorcycle'', 0), (''bicycle'', 0)]"

fun box_loop :: "(int \<Rightarrow> string option) \<Rightarrow> box list \<Rightarrow> tally \<Rightarrow> error + tally" where
  "box_loop nm [] s = Inr s"
| "box_loop nm (b # bs) (vehicle_count, vehicle_types) =
     (case nm (cls b) of
        None \<Rightarrow> Inl (KeyError (cls b))
      | Some label \<Rightarrow>
          (case map_of vehicle_types label of
             None \<Rightarrow> box_loop nm bs (vehicle_count, vehicle_types)
           | Some v \<Rightarrow>
               box_loop nm bs (vehicle_count + 1, AList.update label (v + 1) vehicle_types)))"

fun result_loop ::
  "model \<Rightarrow> result list \<Rightarrow> store \<times> addr \<times> tally \<Rightarrow> error + (store \<times> addr \<times> tally)" where
  "result_loop m [] s = Inr s"
| "result_loop m (r # rs) (st, annotated, t) =
     (case plot m r st of
        (st', annotated') \<Rightarrow>
          (case box_loop (names m) (boxes r) t of
             Inl e \<Rightarrow> Inl e
           | Inr t' \<Rightarrow> result_loop m rs (st', annotated', t')))"

text \<open>The keyword arguments of the one call of \<^verbatim>\<open>model.predict\<close>.\<close>

definition predict_kwargs :: predict_args where
  "predict_kwargs =
     \<lparr>imgsz = 1280, conf_kw = 1 / 4, iou = 1 / 2, classes = [1, 2, 3, 5, 7], verbose = False\<rparr>"

definition process_frame :: "model \<Rightarrow> store \<Rightarrow> addr \<Rightarrow> error + (store \<times> addr \<times> tally)" where
  "process_frame m st frame =
     (case predict m predict_kwargs st frame of
        Inl e \<Rightarrow> Inl e
      | Inr (st1, results) \<Rightarrow>
          (case np_copy st1 frame of
             (st2, annotated) \<Rightarrow> result_loop m results (st2, annotated, 0, vehicle_types0)))"

text \<open>The counts of a run, without the store and the annotated image; \<open>None\<close> for a raise.\<close>

fun tally_of :: "error + (store \<times> addr \<times> tally) \<Rightarrow> tally option" where
  "tally_of (Inl e) = None"
| "tally_of (Inr (st, annotated, t)) = Some t"

subsection \<open>The video and image sections\<close>

text \<open>
  Both sections run the same two calls and hand the values to the page:
  \<^verbatim>\<open>
  ret, frame = cap.read()
  if ret:
      annotated_frame, vehicle_count, vehicle_types = process_frame(frame)
      density, signal_time, color_status = traffic_logic(vehicle_count)
      ... st.image(annotated_frame), m1.metric("Total Vehicles", vehicle_count),
          m2.metric("Traffic Density", density),
          m3.metric("Green Signal Time", ...signal_time...), st.markdown(...color_status...)
  \<close>
  The pair read from the capture is an option: \<open>None\<close> is \<^verbatim>\<open>ret == False\<close>.
  A section returns what it put on the page, \<open>None\<close> when it showed nothing. The image
  section has no guard.
\<close>

record display =
  shown_image :: addr
  total_vehicles :: int
  type_counts :: "(string \<times> int) list"
  traffic_density :: string
  green_signal_time :: int
  status :: string

definition video_section ::
  "model \<Rightarrow> store \<Rightarrow> addr option \<Rightarrow> error + (store \<times> display option)" where
  "video_section m st cap_read =
     (case cap_read of
        None \<Rightarrow> Inr (st, None)
      | Some frame \<Rightarrow>
          (case process_frame m st frame of
             Inl e \<Rightarrow> Inl e
           | Inr (st', annotated_frame, vehicle_count, vehicle_types) \<Rightarrow>
               (case traffic_logic vehicle_count of
                  (density, signal_time, color_status) \<Rightarrow>
                    Inr (st', Some \<lparr>shown_image = annotated_frame,
                                     total_vehicles = vehicle_count,
                                     type_counts = vehicle_types, traffic_density = density,
                                     green_signal_time = signal_time,
                                     status = color_status\<rparr>))))"

definition image_section :: "model \<Rightarrow> store \<Rightarrow> addr \<Rightarrow> error + (store \<times> display option)" where
  "image_section m st img =
     (case process_frame m st img of
        Inl e \<Rightarrow> Inl e
      | Inr (st', annotated_image, vehicle_count, vehicle_types) \<Rightarrow>
          (case traffic_logic vehicle_count of
             (density, signal_time, color_status) \<Rightarrow>
               Inr (st', Some \<lparr>shown_image = annotated_image, total_vehicles = vehicle_count,
                                type_counts = vehicle_types, traffic_density = density,
                                green_signal_time = signal_time, status = color_status\<rparr>)))"

subsection \<open>The detector's contract\<close>

text \<open>
  The library's side of the frame's immutability: \<^verbatim>\<open>predict\<close> and \<^verbatim>\<open>plot\<close> only
  allocate, leaving every buffer that exists as it is, and \<^verbatim>\<open>plot\<close> returns an
  array it has allocated itself.
\<close>

definition extends :: "store \<Rightarrow> store \<Rightarrow> bool" where
  "extends st st' \<longleftrightarrow> nxt st \<le> nxt st' \<and> (\<forall>a < nxt st. mem st' a = mem st a)"

definition detector_contract :: "model \<Rightarrow> bool" where
  "detector_contract m \<longleftrightarrow>
     (\<forall>args st frame st' rs. predict m args st frame = Inr (st', rs) \<longrightarrow> extends st st')
   \<and> (\<forall>r st st' a. plot m r st = (st', a) \<longrightarrow> extends st st' \<and> nxt st \<le> a \<and> a < nxt st')"

subsection \<open>A concrete detector\<close>

text \<open>
  The COCO names of the five classes \<^verbatim>\<open>process_frame\<close> asks for, and of class 0; a
  detector that reports a fixed list of boxes in one result and plots by copying the
  original image; and one that breaks the contract, plotting on the original image.
\<close>

definition coco_names :: "int \<Rightarrow> string option" where
  "coco_names c =
     (if c = 0 then Some ''person'' else if c = 1 then Some ''bicycle''
      else if c = 2 then Some ''car'' else if c = 3 then Some ''motorcycle''
      else if c = 5 then Some ''bus'' else if c = 7 then Some ''truck'' else None)"

definition fixed_model :: "box list \<Rightarrow> model" where
  "fixed_model bs =
     \<lparr>names = coco_names,
      predict = (\<lambda>args st frame. Inr (st, [\<lparr>orig_img = frame, boxes = bs\<rparr>])),
      plot = (\<lambda>r st. alloc st (mem st (orig_img r)))\<rparr>"

definition in_place_model :: model where
  "in_place_model =
     \<lparr>names = coco_names,
      predict = (\<lambda>args st frame. Inr (st, [\<lparr>orig_img = frame, boxes = []\<rparr>])),
      plot = (\<lambda>r st. (st\<lparr>mem := (mem st)(orig_img r := [])\<rparr>, orig_img r))\<rparr>"

definition store0 :: store where
  "store0 = \<lparr>mem = (\<lambda>a. if a = 0 then [1, 2, 3] else []), nxt = 1\<rparr>"

definition a_box :: "int \<Rightarrow> box" where
  "a_box c = \<lparr>cls = c, conf = 1 / 2\<rparr>"

subsection \<open>Auxiliary notions\<close>

text \<open>
  The number of boxes of a list that carry a given label, and the counts of a run of the
  inner loop, \<open>None\<close> for a raise.
\<close>

definition label_count :: "(int \<Rightarrow> string option) \<Rightarrow> box list \<Rightarrow> string \<Rightarrow> int" where
  "label_count nm bs l = int (length (filter (\<lambda>b. nm (cls b) = Some l) bs))"

fun counts_of :: "error + tally \<Rightarrow> tally option" where
  "counts_of (Inl e) = None"
| "counts_of (Inr t) = Some t"

section \<open>Theorems\<close>

subsection \<open>Theorems about the traffic logic\<close>

lemma traffic_logic_LOW:
  "n \<le> 10 \<Longrightarrow> traffic_logic n = (''LOW'', 15, green_circle @ '' Smooth Traffic'')"
  by (simp add: traffic_logic_def)

lemma traffic_logic_MEDIUM:
  "10 < n \<Longrightarrow> n \<le> 25 \<Longrightarrow>
   traffic_logic n = (''MEDIUM'', 30, yellow_circle @ '' Moderate Traffic'')"
  by (simp add: traffic_logic_def)

lemma traffic_logic_HIGH:
  "25 < n \<Longrightarrow> traffic_logic n = (''HIGH'', 45, red_circle @ '' Heavy Congestion'')"
  by (simp add: traffic_logic_def)

lemma traffic_logic_cases:
  obtains (low) "n \<le> 10" "traffic_logic n = (''LOW'', 15, green_circle @ '' Smooth Traffic'')"
  | (medium) "11 \<le> n" "n \<le> 25"
      "traffic_logic n = (''MEDIUM'', 30, yellow_circle @ '' Moderate Traffic'')"
  | (high) "26 \<le> n" "traffic_logic n = (''HIGH'', 45, red_circle @ '' Heavy Congestion'')"
proof -
  consider "n \<le> 10" | "11 \<le> n \<and> n \<le> 25" | "26 \<le> n"
    by linarith
  then show thesis
  proof cases
    case 1
    then show thesis using low traffic_logic_LOW by blast
  next
    case 2
    then show thesis using medium traffic_logic_MEDIUM [of n] by simp
  next
    case 3
    then show thesis using high traffic_logic_HIGH [of n] by simp
  qed
qed

text \<open>
  C1. For every non-negative count \<open>n\<close> the density is LOW exactly when \<open>n \<le> 10\<close>,
  MEDIUM exactly when \<open>11 \<le> n \<le> 25\<close> and HIGH exactly when \<open>n \<ge> 26\<close>; the
  boundary counts 10, 11, 25 and 26 give LOW, MEDIUM, MEDIUM and HIGH.
\<close>

theorem classify_thresholds:
  assumes "0 \<le> n"
  shows "(fst (traffic_logic n) = ''LOW'' \<longleftrightarrow> n \<le> 10)
       \<and> (fst (traffic_logic n) = ''MEDIUM'' \<longleftrightarrow> 11 \<le> n \<and> n \<le> 25)
       \<and> (fst (traffic_logic n) = ''HIGH'' \<longleftrightarrow> 26 \<le> n)
       \<and> fst (traffic_logic 10) = ''LOW''
       \<and> fst (traffic_logic 11) = ''MEDIUM''
       \<and> fst (traffic_logic 25) = ''MEDIUM''
       \<and> fst (traffic_logic 26) = ''HIGH''"
proof -
  have bounds: "fst (traffic_logic 10) = ''LOW''" "fst (traffic_logic 11) = ''MEDIUM''"
    "fst (traffic_logic 25) = ''MEDIUM''" "fst (traffic_logic 26) = ''HIGH''"
    by (simp_all add: traffic_logic_def)
  have "(fst (traffic_logic n) = ''LOW'' \<longleftrightarrow> n \<le> 10)
      \<and> (fst (traffic_logic n) = ''MEDIUM'' \<longleftrightarrow> 11 \<le> n \<and> n \<le> 25)
      \<and> (fst (traffic_logic n) = ''HIGH'' \<longleftrightarrow> 26 \<le> n)"
    by (cases n rule: traffic_logic_cases) simp_all
  with bounds show ?thesis by simp
qed

theorem classify_thresholds_witness:
  "(0::int) \<le> 17 \<and> fst (traffic_logic 17) = ''MEDIUM'' \<and> fst (traffic_logic 17) \<noteq> ''LOW''
   \<and> fst (traffic_logic 17) \<noteq> ''HIGH''"
  using classify_thresholds [of 17] by simp

text \<open>
  The status strings differ from the plain words: \<^verbatim>\<open>traffic_logic\<close> puts a coloured
  circle and a space in front of them.
\<close>

theorem decide_label_counterexample: "snd (snd (traffic_logic 0)) \<noteq> ''Smooth Traffic''"
  by (simp add: traffic_logic_def green_circle_def)

text \<open>
  C2 (as amended). The green time and the status string are a lookup on the density: LOW
  goes with 15 seconds and the green circle followed by \<open>Smooth Traffic\<close>, MEDIUM with
  30 and the yellow circle followed by \<open>Moderate Traffic\<close>, HIGH with 45 and the red
  circle followed by \<open>Heavy Congestion\<close>.
\<close>

theorem decide_lookup:
  "(fst (traffic_logic n) = ''LOW'' \<longrightarrow>
      snd (traffic_logic n) = (15, green_circle @ '' Smooth Traffic''))
 \<and> (fst (traffic_logic n) = ''MEDIUM'' \<longrightarrow>
      snd (traffic_logic n) = (30, yellow_circle @ '' Moderate Traffic''))
 \<and> (fst (traffic_logic n) = ''HIGH'' \<longrightarrow>
      snd (traffic_logic n) = (45, red_circle @ '' Heavy Congestion''))"
  by (cases n rule: traffic_logic_cases) simp_all

theorem decide_lookup_witness:
  "fst (traffic_logic 3) = ''LOW'' \<and> snd (traffic_logic 3) = (15, green_circle @ '' Smooth Traffic'')
 \<and> fst (traffic_logic 20) = ''MEDIUM''
 \<and> snd (traffic_logic 20) = (30, yellow_circle @ '' Moderate Traffic'')
 \<and> fst (traffic_logic 40) = ''HIGH''
 \<and> snd (traffic_logic 40) = (45, red_circle @ '' Heavy Congestion'')"
  using decide_lookup [of 3] decide_lookup [of 20] decide_lookup [of 40]
  by (simp add: traffic_logic_def)

text \<open>
  C10. The green time is monotone in the count: \<open>m \<le> n\<close> gives a green time for \<open>m\<close>
  that is at most the one for \<open>n\<close>; every integer, negative ones too, gets one of the
  three densities.
\<close>

theorem green_time_monotone:
  assumes "m \<le> n"
  shows "fst (snd (traffic_logic m)) \<le> fst (snd (traffic_logic n))
       \<and> fst (traffic_logic m) \<in> {''LOW'', ''MEDIUM'', ''HIGH''}
       \<and> fst (traffic_logic n) \<in> {''LOW'', ''MEDIUM'', ''HIGH''}"
proof (cases m rule: traffic_logic_cases)
  case low
  then show ?thesis by (cases n rule: traffic_logic_cases) simp_all
next
  case medium
  with assms show ?thesis by (cases n rule: traffic_logic_cases) simp_all
next
  case high
  with assms show ?thesis by (cases n rule: traffic_logic_cases) simp_all
qed

theorem green_time_monotone_witness:
  "(- 4 :: int) \<le> 12 \<and> fst (snd (traffic_logic (- 4))) \<le> fst (snd (traffic_logic 12))
   \<and> fst (traffic_logic (- 4)) = ''LOW'' \<and> fst (traffic_logic 12) = ''MEDIUM''"
  using green_time_monotone [of "- 4" 12] by (simp add: traffic_logic_def)

subsection \<open>The two loops in closed form\<close>

lemma box_loop_append:
  "box_loop nm (bs @ cs) s =
     (case box_loop nm bs s of Inl e \<Rightarrow> Inl e | Inr s' \<Rightarrow> box_loop nm cs s')"
proof (induction bs arbitrary: s)
  case Nil
  show ?case by simp
next
  case (Cons b bs)
  obtain vc vt where s: "s = (vc, vt)" by (cases s)
  show ?case
    by (simp add: s Cons.IH split: option.splits)
qed

lemma box_loop_KeyError:
  "\<exists>b \<in> set bs. nm (cls b) = None \<Longrightarrow> \<exists>c. box_loop nm bs s = Inl (KeyError c)"
proof (induction bs arbitrary: s)
  case Nil
  then show ?case by simp
next
  case (Cons b bs)
  obtain vc vt where s: "s = (vc, vt)" by (cases s)
  show ?case
  proof (cases "nm (cls b)")
    case None
    then show ?thesis by (simp add: s)
  next
    case (Some l)
    with Cons.prems have "\<exists>b \<in> set bs. nm (cls b) = None" by auto
    from Cons.IH [OF this] show ?thesis
      by (simp add: s Some split: option.splits)
  qed
qed

lemma update_present:
  "distinct (map fst al) \<Longrightarrow> map_of al l = Some v \<Longrightarrow>
   AList.update l w al = map (\<lambda>(k, x). (k, if k = l then w else x)) al"
proof (induction al)
  case Nil
  then show ?case by simp
next
  case (Cons p al)
  obtain k x where p: "p = (k, x)" by (cases p)
  show ?case
  proof (cases "k = l")
    case True
    with Cons.prems p have "l \<notin> fst ` set al" by auto
    then have "map (\<lambda>(k, x). (k, if k = l then w else x)) al = al"
      by (induction al) auto
    with True p show ?thesis by simp
  next
    case False
    with Cons p show ?thesis by simp
  qed
qed

lemma sum_list_indicator_absent:
  "l \<notin> set ks \<Longrightarrow> (\<Sum>k\<leftarrow>ks. if k = l then (1::int) else 0) = 0"
  by (induction ks) auto

lemma sum_list_indicator:
  "distinct ks \<Longrightarrow> l \<in> set ks \<Longrightarrow> (\<Sum>k\<leftarrow>ks. if k = l then (1::int) else 0) = 1"
proof (induction ks)
  case Nil
  then show ?case by simp
next
  case (Cons k ks)
  show ?case
  proof (cases "k = l")
    case True
    with Cons.prems have "l \<notin> set ks" by simp
    then show ?thesis using True by (simp add: sum_list_indicator_absent)
  next
    case False
    with Cons show ?thesis by simp
  qed
qed

lemma label_count_Cons:
  "label_count nm (b # bs) k = (if nm (cls b) = Some k then 1 else 0) + label_count nm bs k"
  by (simp add: label_count_def)

lemma box_loop_closed:
  assumes "distinct (map fst vt)" and "\<forall>b \<in> set bs. nm (cls b) \<noteq> None"
  shows "box_loop nm bs (vc, vt) =
           Inr (vc + (\<Sum>k\<leftarrow>map fst vt. label_count nm bs k),
                map (\<lambda>(k, v). (k, v + label_count nm bs k)) vt)"
  using assms
proof (induction bs arbitrary: vc vt)
  case Nil
  show ?case by (simp add: label_count_def case_prod_unfold comp_def)
next
  case (Cons b bs)
  from Cons.prems obtain l where l: "nm (cls b) = Some l" by auto
  from Cons.prems have rest: "\<forall>b \<in> set bs. nm (cls b) \<noteq> None" by simp
  show ?case
  proof (cases "map_of vt l")
    case None
    then have notin: "l \<notin> set (map fst vt)" by (simp add: map_of_eq_None_iff)
    then have same: "\<And>k. k \<in> set (map fst vt) \<Longrightarrow> label_count nm (b # bs) k = label_count nm bs k"
      by (auto simp: label_count_Cons l)
    have s1: "(\<Sum>k\<leftarrow>map fst vt. label_count nm (b # bs) k) = (\<Sum>k\<leftarrow>map fst vt. label_count nm bs k)"
      using same by (intro arg_cong [where f = sum_list] map_cong) auto
    have same2: "\<And>k x. (k, x) \<in> set vt \<Longrightarrow> label_count nm (b # bs) k = label_count nm bs k"
      using notin by (force simp: label_count_Cons l)
    have s2: "map (\<lambda>(k, v). (k, v + label_count nm (b # bs) k)) vt
            = map (\<lambda>(k, v). (k, v + label_count nm bs k)) vt"
      using same2 by (intro map_cong) auto
    have "box_loop nm (b # bs) (vc, vt) = box_loop nm bs (vc, vt)"
      by (simp add: l None)
    also note Cons.IH [OF Cons.prems(1) rest, of vc]
    finally show ?thesis
      by (simp only: s1 s2)
  next
    case (Some v)
    then have isin: "l \<in> set (map fst vt)" by (metis map_of_eq_None_iff option.distinct(1) set_map)
    let ?vt = "AList.update l (v + 1) vt"
    have d: "distinct (map fst ?vt)" using Cons.prems(1) by (rule distinct_update)
    have keys: "map fst ?vt = map fst vt" using isin by (simp add: update_keys)
    have upd: "?vt = map (\<lambda>(k, x). (k, if k = l then v + 1 else x)) vt"
      using Cons.prems(1) Some by (rule update_present)
    have val: "\<And>k x. (k, x) \<in> set vt \<Longrightarrow> k = l \<Longrightarrow> x = v"
      using Cons.prems(1) Some by (metis map_of_is_SomeI option.inject)
    have s1: "(\<Sum>k\<leftarrow>map fst vt. label_count nm (b # bs) k) = 1 + (\<Sum>k\<leftarrow>map fst vt. label_count nm bs k)"
    proof -
      have "(\<Sum>k\<leftarrow>map fst vt. label_count nm (b # bs) k)
          = (\<Sum>k\<leftarrow>map fst vt. (if k = l then 1 else 0) + label_count nm bs k)"
        by (intro arg_cong [where f = sum_list] map_cong) (auto simp: label_count_Cons l)
      also have "\<dots> = (\<Sum>k\<leftarrow>map fst vt. if k = l then 1 else 0) + (\<Sum>k\<leftarrow>map fst vt. label_count nm bs k)"
        by (rule sum_list_addf)
      finally show ?thesis
        using sum_list_indicator [OF Cons.prems(1) isin] by simp
    qed
    have s2: "map (\<lambda>(k, v). (k, v + label_count nm bs k)) ?vt
            = map (\<lambda>(k, v). (k, v + label_count nm (b # bs) k)) vt"
      unfolding upd map_map
      by (intro map_cong) (auto simp: label_count_Cons l dest: val)
    have "box_loop nm (b # bs) (vc, vt) = box_loop nm bs (vc + 1, ?vt)"
      by (simp add: l Some)
    also note Cons.IH [OF d rest, of "vc + 1"]
    finally show ?thesis
      by (simp only: keys s1 s2 add.assoc)
  qed
qed


lemma label_count_mset:
  "mset bs = mset bs' \<Longrightarrow> label_count nm bs k = label_count nm bs' k"
proof -
  assume eq: "mset bs = mset bs'"
  have "length (filter (\<lambda>b. nm (cls b) = Some k) bs)
      = size (filter_mset (\<lambda>b. nm (cls b) = Some k) (mset bs))"
    by (metis mset_filter size_mset)
  also have "\<dots> = size (filter_mset (\<lambda>b. nm (cls b) = Some k) (mset bs'))"
    by (simp only: eq)
  also have "\<dots> = length (filter (\<lambda>b. nm (cls b) = Some k) bs')"
    by (metis mset_filter size_mset)
  finally show ?thesis by (simp add: label_count_def)
qed

lemma label_count_append:
  "label_count nm (bs @ cs) k = label_count nm bs k + label_count nm cs k"
  by (simp add: label_count_def)

lemma box_loop_counts:
  assumes "distinct (map fst vt)"
  shows "counts_of (box_loop nm bs (vc, vt)) =
           (if \<forall>b \<in> set bs. nm (cls b) \<noteq> None
            then Some (vc + (\<Sum>k\<leftarrow>map fst vt. label_count nm bs k),
                       map (\<lambda>(k, v). (k, v + label_count nm bs k)) vt)
            else None)"
proof (cases "\<forall>b \<in> set bs. nm (cls b) \<noteq> None")
  case True
  show ?thesis
    unfolding box_loop_closed [OF assms True] counts_of.simps by (simp only: if_P [OF True])
next
  case False
  then have "\<exists>b \<in> set bs. nm (cls b) = None" by simp
  from box_loop_KeyError [OF this] obtain c where "box_loop nm bs (vc, vt) = Inl (KeyError c)"
    by blast
  with False show ?thesis by simp
qed

lemma box_loop_mset:
  assumes "distinct (map fst vt)" and "mset bs = mset bs'"
  shows "counts_of (box_loop nm bs (vc, vt)) = counts_of (box_loop nm bs' (vc, vt))"
proof -
  have s: "set bs = set bs'" using assms(2) by (rule mset_eq_setD)
  have lc: "label_count nm bs = label_count nm bs'"
    using label_count_mset [OF assms(2)] by (intro ext)
  show ?thesis
    by (simp only: box_loop_counts [OF assms(1)] s lc)
qed

lemma result_loop_counts:
  "tally_of (result_loop m rs (st, a, t)) =
   counts_of (box_loop (names m) (concat (map boxes rs)) t)"
proof (induction rs arbitrary: st a t)
  case Nil
  show ?case by simp
next
  case (Cons r rs)
  obtain st' a' where p: "plot m r st = (st', a')" by (cases "plot m r st")
  show ?case
  proof (cases "box_loop (names m) (boxes r) t")
    case (Inl e)
    then show ?thesis by (simp add: p box_loop_append)
  next
    case (Inr t')
    then show ?thesis by (simp add: p box_loop_append Cons.IH)
  qed
qed

lemma process_frame_counts:
  assumes "predict m predict_kwargs st frame = Inr (st1, rs)"
  shows "tally_of (process_frame m st frame) =
         counts_of (box_loop (names m) (concat (map boxes rs)) (0, vehicle_types0))"
proof -
  obtain st2 a where c: "np_copy st1 frame = (st2, a)" by (cases "np_copy st1 frame")
  show ?thesis
    by (simp add: process_frame_def assms c result_loop_counts)
qed

lemma distinct_vehicle_types0: "distinct (map fst vehicle_types0)"
  by (simp add: vehicle_types0_def)

lemma counts_closed:
  assumes "counts_of (box_loop nm bs (0, vehicle_types0)) = Some (vc, vt)"
  shows "\<forall>b \<in> set bs. nm (cls b) \<noteq> None"
    and "vt = [(''car'', label_count nm bs ''car''), (''truck'', label_count nm bs ''truck''),
               (''bus'', label_count nm bs ''bus''),
               (''motorcycle'', label_count nm bs ''motorcycle''),
               (''bicycle'', label_count nm bs ''bicycle'')]"
    and "vc = label_count nm bs ''car'' + label_count nm bs ''truck'' + label_count nm bs ''bus''
            + label_count nm bs ''motorcycle'' + label_count nm bs ''bicycle''"
proof -
  note c = box_loop_counts [OF distinct_vehicle_types0, of nm bs 0]
  show known: "\<forall>b \<in> set bs. nm (cls b) \<noteq> None"
    using assms unfolding c by (simp split: if_splits)
  have "Some (vc, vt) = Some (0 + (\<Sum>k\<leftarrow>map fst vehicle_types0. label_count nm bs k),
                       map (\<lambda>(k, v). (k, v + label_count nm bs k)) vehicle_types0)"
    using assms unfolding c if_P [OF known] by simp
  then show "vt = [(''car'', label_count nm bs ''car''), (''truck'', label_count nm bs ''truck''),
               (''bus'', label_count nm bs ''bus''),
               (''motorcycle'', label_count nm bs ''motorcycle''),
               (''bicycle'', label_count nm bs ''bicycle'')]"
    and "vc = label_count nm bs ''car'' + label_count nm bs ''truck'' + label_count nm bs ''bus''
            + label_count nm bs ''motorcycle'' + label_count nm bs ''bicycle''"
    by (simp_all add: vehicle_types0_def)
qed

subsection \<open>Evaluating the concrete detector\<close>

lemma fixed_model_sel:
  "names (fixed_model bs) = coco_names"
  "predict (fixed_model bs) args st frame = Inr (st, [\<lparr>orig_img = frame, boxes = bs\<rparr>])"
  "plot (fixed_model bs) r st = alloc st (mem st (orig_img r))"
  by (simp_all add: fixed_model_def)

lemma counts_insert:
  assumes l: "nm (cls b) = Some l"
    and c: "counts_of (box_loop nm (bs1 @ bs2) (0, vehicle_types0)) = Some (vc, vt)"
  shows "l \<in> {''car'', ''truck'', ''bus'', ''motorcycle'', ''bicycle''} \<Longrightarrow>
           \<exists>v. map_of vt l = Some v
             \<and> counts_of (box_loop nm (bs1 @ b # bs2) (0, vehicle_types0))
                 = Some (vc + 1, AList.update l (v + 1) vt)"
    and "l \<notin> {''car'', ''truck'', ''bus'', ''motorcycle'', ''bicycle''} \<Longrightarrow>
           counts_of (box_loop nm (bs1 @ b # bs2) (0, vehicle_types0)) = Some (vc, vt)"
proof -
  note old = counts_closed [OF c]
  have known: "\<forall>x \<in> set (bs1 @ b # bs2). nm (cls x) \<noteq> None"
    using old(1) l by auto
  have new: "counts_of (box_loop nm (bs1 @ b # bs2) (0, vehicle_types0))
      = Some (0 + (\<Sum>k\<leftarrow>map fst vehicle_types0. label_count nm (bs1 @ b # bs2) k),
              map (\<lambda>(k, v). (k, v + label_count nm (bs1 @ b # bs2) k)) vehicle_types0)"
    unfolding box_loop_counts [OF distinct_vehicle_types0] by (simp only: if_P [OF known])
  have lc: "\<And>k. label_count nm (bs1 @ b # bs2) k
              = label_count nm (bs1 @ bs2) k + (if l = k then 1 else 0)"
    by (simp add: label_count_append label_count_Cons l)
  {
    assume "l \<in> {''car'', ''truck'', ''bus'', ''motorcycle'', ''bicycle''}"
    then consider "l = ''car''" | "l = ''truck''" | "l = ''bus''" | "l = ''motorcycle''"
      | "l = ''bicycle''" by blast
    then show "\<exists>v. map_of vt l = Some v
             \<and> counts_of (box_loop nm (bs1 @ b # bs2) (0, vehicle_types0))
                 = Some (vc + 1, AList.update l (v + 1) vt)"
      unfolding new by cases (simp_all add: lc old(2,3) vehicle_types0_def)
  }
  {
    assume "l \<notin> {''car'', ''truck'', ''bus'', ''motorcycle'', ''bicycle''}"
    then show "counts_of (box_loop nm (bs1 @ b # bs2) (0, vehicle_types0)) = Some (vc, vt)"
      unfolding new by (simp add: lc old(2,3) vehicle_types0_def)
  }
qed

subsection \<open>Theorems about the aggregation\<close>

text \<open>
  C3. Whatever the detector reports, the total that \<^verbatim>\<open>process_frame\<close> returns is the
  sum of the five counts of car, truck, bus, motorcycle and bicycle, the dictionary has
  these five keys and no other, and each count is the number of reported boxes with that
  very label: a box of any other class adds to nothing.
\<close>

theorem total_is_sum_of_classes:
  assumes "predict m predict_kwargs st frame = Inr (st1, rs)"
    and "process_frame m st frame = Inr (st', annotated, vehicle_count, vehicle_types)"
  shows "\<exists>car truck bus motorcycle bicycle.
           vehicle_types = [(''car'', car), (''truck'', truck), (''bus'', bus),
                            (''motorcycle'', motorcycle), (''bicycle'', bicycle)]
         \<and> vehicle_count = car + truck + bus + motorcycle + bicycle
         \<and> car = label_count (names m) (concat (map boxes rs)) ''car''
         \<and> truck = label_count (names m) (concat (map boxes rs)) ''truck''
         \<and> bus = label_count (names m) (concat (map boxes rs)) ''bus''
         \<and> motorcycle = label_count (names m) (concat (map boxes rs)) ''motorcycle''
         \<and> bicycle = label_count (names m) (concat (map boxes rs)) ''bicycle''"
proof -
  have "counts_of (box_loop (names m) (concat (map boxes rs)) (0, vehicle_types0))
      = Some (vehicle_count, vehicle_types)"
    using process_frame_counts [OF assms(1)] assms(2) by simp
  from counts_closed(2,3) [OF this] show ?thesis by blast
qed

theorem total_is_sum_of_classes_witness:
  "tally_of (process_frame (fixed_model [a_box 2, a_box 0, a_box 7, a_box 2]) store0 0)
     = Some (3, [(''car'', 2), (''truck'', 1), (''bus'', 0), (''motorcycle'', 0), (''bicycle'', 0)])
 \<and> (3::int) = 2 + 1 + 0 + 0 + 0
 \<and> label_count coco_names [a_box 2, a_box 0, a_box 7, a_box 2] ''car'' = 2
 \<and> label_count coco_names [a_box 2, a_box 0, a_box 7, a_box 2] ''truck'' = 1"
proof -
  let ?bs = "[a_box 2, a_box 0, a_box 7, a_box 2]"
  obtain st' a where r: "process_frame (fixed_model ?bs) store0 0 =
      Inr (st', a, 3, [(''car'', 2), (''truck'', 1), (''bus'', 0), (''motorcycle'', 0), (''bicycle'', 0)])"
    by (simp add: process_frame_def fixed_model_sel np_copy_def alloc_def coco_names_def
        vehicle_types0_def a_box_def)
  have p: "predict (fixed_model ?bs) predict_kwargs store0 0
         = Inr (store0, [\<lparr>orig_img = 0, boxes = ?bs\<rparr>])"
    by (simp add: fixed_model_sel)
  from total_is_sum_of_classes [OF p r] r show ?thesis
    by (simp add: fixed_model_sel)
qed

text \<open>
  C4. One more detection in the input, at any position: if its label is one of the five,
  the total and the count of that label are one higher and nothing else changes, whatever
  its confidence; if its label is any other name, such as \<open>person\<close>, the total and all
  counts are the same as without it, and the run still returns.
\<close>

theorem detection_counts_one:
  assumes "predict m predict_kwargs st frame = Inr (st1, rs)"
    and "predict m' predict_kwargs st' frame' = Inr (st1', rs')"
    and "names m' = names m"
    and "concat (map boxes rs) = bs1 @ bs2"
    and "concat (map boxes rs') = bs1 @ b # bs2"
    and "names m (cls b) = Some label"
    and "tally_of (process_frame m st frame) = Some (vehicle_count, vehicle_types)"
  shows "(label \<in> {''car'', ''truck'', ''bus'', ''motorcycle'', ''bicycle''} \<longrightarrow>
            (\<exists>v. map_of vehicle_types label = Some v
               \<and> tally_of (process_frame m' st' frame')
                   = Some (vehicle_count + 1, AList.update label (v + 1) vehicle_types)))
       \<and> (label \<notin> {''car'', ''truck'', ''bus'', ''motorcycle'', ''bicycle''} \<longrightarrow>
            tally_of (process_frame m' st' frame') = Some (vehicle_count, vehicle_types))"
proof -
  have c: "counts_of (box_loop (names m) (bs1 @ bs2) (0, vehicle_types0))
         = Some (vehicle_count, vehicle_types)"
    using process_frame_counts [OF assms(1)] assms(4,7) by simp
  have t: "tally_of (process_frame m' st' frame')
         = counts_of (box_loop (names m) (bs1 @ b # bs2) (0, vehicle_types0))"
    using process_frame_counts [OF assms(2)] assms(3,5) by simp
  show ?thesis
    unfolding t using counts_insert [OF assms(6) c] by blast
qed

theorem detection_counts_one_witness:
  "coco_names 5 = Some ''bus'' \<and> coco_names 0 = Some ''person''
 \<and> tally_of (process_frame (fixed_model [a_box 2]) store0 0)
     = Some (1, [(''car'', 1), (''truck'', 0), (''bus'', 0), (''motorcycle'', 0), (''bicycle'', 0)])
 \<and> tally_of (process_frame (fixed_model [a_box 2, \<lparr>cls = 5, conf = 1 / 100\<rparr>]) store0 0)
     = Some (2, [(''car'', 1), (''truck'', 0), (''bus'', 1), (''motorcycle'', 0), (''bicycle'', 0)])
 \<and> tally_of (process_frame (fixed_model [a_box 0, a_box 2]) store0 0)
     = Some (1, [(''car'', 1), (''truck'', 0), (''bus'', 0), (''motorcycle'', 0), (''bicycle'', 0)])"
proof -
  let ?bus = "\<lparr>cls = 5, conf = 1 / 100\<rparr>"
  let ?vt = "[(''car'', 1), (''truck'', 0), (''bus'', 0), (''motorcycle'', 0), (''bicycle'', 0 :: int)]"
  have p: "predict (fixed_model [a_box 2]) predict_kwargs store0 0
         = Inr (store0, [\<lparr>orig_img = 0, boxes = [a_box 2]\<rparr>])"
    and p1: "predict (fixed_model [a_box 2, ?bus]) predict_kwargs store0 0
         = Inr (store0, [\<lparr>orig_img = 0, boxes = [a_box 2, ?bus]\<rparr>])"
    and p2: "predict (fixed_model [a_box 0, a_box 2]) predict_kwargs store0 0
         = Inr (store0, [\<lparr>orig_img = 0, boxes = [a_box 0, a_box 2]\<rparr>])"
    and n1: "names (fixed_model [a_box 2, ?bus]) = names (fixed_model [a_box 2])"
    and n2: "names (fixed_model [a_box 0, a_box 2]) = names (fixed_model [a_box 2])"
    by (simp_all add: fixed_model_sel)
  have d1: "concat (map boxes [\<lparr>orig_img = 0, boxes = [a_box 2]\<rparr>]) = [a_box 2] @ []"
    and d1': "concat (map boxes [\<lparr>orig_img = 0, boxes = [a_box 2, ?bus]\<rparr>]) = [a_box 2] @ ?bus # []"
    and d2: "concat (map boxes [\<lparr>orig_img = 0, boxes = [a_box 2]\<rparr>]) = [] @ [a_box 2]"
    and d2': "concat (map boxes [\<lparr>orig_img = 0, boxes = [a_box 0, a_box 2]\<rparr>]) = [] @ a_box 0 # [a_box 2]"
    by simp_all
  have l1: "names (fixed_model [a_box 2]) (cls ?bus) = Some ''bus''"
    and l2: "names (fixed_model [a_box 2]) (cls (a_box 0)) = Some ''person''"
    by (simp_all add: fixed_model_sel coco_names_def a_box_def)
  have t: "tally_of (process_frame (fixed_model [a_box 2]) store0 0) = Some (1, ?vt)"
    by (simp add: process_frame_def fixed_model_sel np_copy_def alloc_def coco_names_def
        vehicle_types0_def a_box_def)
  from detection_counts_one [OF p p1 n1 d1 d1' l1 t] detection_counts_one [OF p p2 n2 d2 d2' l2 t] t
  show ?thesis by (simp add: coco_names_def)
qed

text \<open>
  C7. The counts do not depend on the order of the detections: two runs whose detectors
  share the names and report the same boxes up to a permutation end with the same total
  and the same per-class counts (or both raise).
\<close>

theorem aggregate_order_independent:
  assumes "predict m predict_kwargs st frame = Inr (st1, rs)"
    and "predict m' predict_kwargs st' frame' = Inr (st1', rs')"
    and "names m' = names m"
    and "mset (concat (map boxes rs')) = mset (concat (map boxes rs))"
  shows "tally_of (process_frame m' st' frame') = tally_of (process_frame m st frame)"
proof -
  have "tally_of (process_frame m' st' frame')
      = counts_of (box_loop (names m) (concat (map boxes rs')) (0, vehicle_types0))"
    using process_frame_counts [OF assms(2)] assms(3) by simp
  also have "\<dots> = counts_of (box_loop (names m) (concat (map boxes rs)) (0, vehicle_types0))"
    using distinct_vehicle_types0 assms(4) by (rule box_loop_mset)
  also have "\<dots> = tally_of (process_frame m st frame)"
    using process_frame_counts [OF assms(1)] by simp
  finally show ?thesis .
qed

theorem aggregate_order_independent_witness:
  "mset [a_box 5, a_box 2] = mset [a_box 2, a_box 5]
 \<and> tally_of (process_frame (fixed_model [a_box 5, a_box 2]) store0 0)
   = tally_of (process_frame (fixed_model [a_box 2, a_box 5]) store0 0)
 \<and> tally_of (process_frame (fixed_model [a_box 2, a_box 5]) store0 0)
   = Some (2, [(''car'', 1), (''truck'', 0), (''bus'', 1), (''motorcycle'', 0), (''bicycle'', 0)])"
proof -
  have p: "predict (fixed_model [a_box 2, a_box 5]) predict_kwargs store0 0
             = Inr (store0, [\<lparr>orig_img = 0, boxes = [a_box 2, a_box 5]\<rparr>])"
    and p': "predict (fixed_model [a_box 5, a_box 2]) predict_kwargs store0 0
             = Inr (store0, [\<lparr>orig_img = 0, boxes = [a_box 5, a_box 2]\<rparr>])"
    and n: "names (fixed_model [a_box 5, a_box 2]) = names (fixed_model [a_box 2, a_box 5])"
    by (simp_all add: fixed_model_sel)
  have ms: "mset (concat (map boxes [\<lparr>orig_img = 0, boxes = [a_box 5, a_box 2]\<rparr>]))
          = mset (concat (map boxes [\<lparr>orig_img = 0, boxes = [a_box 2, a_box 5]\<rparr>]))"
    by simp
  have v: "tally_of (process_frame (fixed_model [a_box 2, a_box 5]) store0 0)
   = Some (2, [(''car'', 1), (''truck'', 0), (''bus'', 1), (''motorcycle'', 0), (''bicycle'', 0)])"
    by (simp add: process_frame_def fixed_model_sel np_copy_def alloc_def coco_names_def
      vehicle_types0_def a_box_def)
  from aggregate_order_independent [OF p p' n ms] v ms show ?thesis by simp
qed

text \<open>
  C8. Nothing accumulates between calls: two calls, in whatever stores, for which the
  detector reports the same detections give the same counts, each call starting from zero.
\<close>

theorem aggregate_no_accumulation:
  assumes "predict m predict_kwargs st frame = Inr (st1, rs)"
    and "predict m predict_kwargs st' frame' = Inr (st1', rs)"
  shows "tally_of (process_frame m st' frame') = tally_of (process_frame m st frame)"
  by (simp only: process_frame_counts [OF assms(1)] process_frame_counts [OF assms(2)])

theorem aggregate_no_accumulation_witness:
  "(case process_frame (fixed_model [a_box 2]) store0 0 of
      Inl e \<Rightarrow> False
    | Inr (st', annotated, t) \<Rightarrow>
        tally_of (process_frame (fixed_model [a_box 2]) st' 0) = Some t
      \<and> t = (1, [(''car'', 1), (''truck'', 0), (''bus'', 0), (''motorcycle'', 0), (''bicycle'', 0)]))"
proof -
  let ?M = "fixed_model [a_box 2]"
  obtain st' a where r: "process_frame ?M store0 0 =
      Inr (st', a, 1, [(''car'', 1), (''truck'', 0), (''bus'', 0), (''motorcycle'', 0), (''bicycle'', 0)])"
    by (simp add: process_frame_def fixed_model_sel np_copy_def alloc_def coco_names_def
        vehicle_types0_def a_box_def)
  have p: "predict ?M predict_kwargs store0 0 = Inr (store0, [\<lparr>orig_img = 0, boxes = [a_box 2]\<rparr>])"
    and p': "predict ?M predict_kwargs st' 0 = Inr (st', [\<lparr>orig_img = 0, boxes = [a_box 2]\<rparr>])"
    by (simp_all add: fixed_model_sel)
  from aggregate_no_accumulation [OF p p'] r show ?thesis by simp
qed

subsection \<open>Theorems about the sections\<close>

text \<open>With no frame read, the video section raises nothing.\<close>

theorem no_frame_counterexample:
  "\<not> isl (video_section (fixed_model []) store0 None)"
  by (simp add: video_section_def)

text \<open>
  C5 (as amended). When the capture yields no frame, the video section skips the analysis:
  \<^verbatim>\<open>process_frame\<close> is not called, the store is as it was, nothing is shown and
  nothing is raised.
\<close>

theorem no_frame_skips: "video_section m st None = Inr (st, None)"
  by (simp add: video_section_def)

theorem no_frame_skips_witness:
  "video_section (fixed_model [a_box 2]) store0 None = Inr (store0, None)"
  using no_frame_skips [of "fixed_model [a_box 2]" store0] by simp

text \<open>With no detection the status shown is not the plain \<open>Smooth Traffic\<close>.\<close>

theorem zero_detections_status_counterexample:
  "map_sum id (map_option status \<circ> snd) (image_section (fixed_model []) store0 0)
     \<noteq> Inr (Some ''Smooth Traffic'')"
  by (simp add: image_section_def process_frame_def fixed_model_sel np_copy_def alloc_def
      vehicle_types0_def traffic_logic_def green_circle_def)

text \<open>
  C6 (as amended). A frame on which the detector reports no box is not an error: both
  sections show a result with every field set, all five counts zero, total 0, density LOW,
  green time 15 and the status made of the green circle and \<open>Smooth Traffic\<close>.
\<close>

theorem zero_detections_valid:
  assumes "predict m predict_kwargs st frame = Inr (st1, rs)"
    and "concat (map boxes rs) = []"
  shows "\<exists>st' annotated.
           image_section m st frame =
             Inr (st', Some \<lparr>shown_image = annotated, total_vehicles = 0,
                    type_counts = [(''car'', 0), (''truck'', 0), (''bus'', 0),
                                   (''motorcycle'', 0), (''bicycle'', 0)],
                    traffic_density = ''LOW'', green_signal_time = 15,
                    status = green_circle @ '' Smooth Traffic''\<rparr>)
         \<and> video_section m st (Some frame) = image_section m st frame"
proof -
  have "tally_of (process_frame m st frame) = Some (0, vehicle_types0)"
    using process_frame_counts [OF assms(1)] assms(2) by simp
  then obtain st' a where r: "process_frame m st frame = Inr (st', a, 0, vehicle_types0)"
    by (cases "process_frame m st frame" rule: tally_of.cases) auto
  show ?thesis
    by (simp add: image_section_def video_section_def r traffic_logic_def vehicle_types0_def)
qed

theorem zero_detections_valid_witness:
  "map_sum id (map_option (\<lambda>d. (total_vehicles d, type_counts d, traffic_density d,
       green_signal_time d, status d)) \<circ> snd) (image_section (fixed_model []) store0 0)
     = Inr (Some (0, [(''car'', 0), (''truck'', 0), (''bus'', 0), (''motorcycle'', 0),
                      (''bicycle'', 0)], ''LOW'', 15, green_circle @ '' Smooth Traffic''))
 \<and> video_section (fixed_model []) store0 (Some 0) = image_section (fixed_model []) store0 0"
proof -
  have p: "predict (fixed_model []) predict_kwargs store0 0
         = Inr (store0, [\<lparr>orig_img = 0, boxes = []\<rparr>])"
    by (simp add: fixed_model_sel)
  have e: "concat (map boxes [\<lparr>orig_img = 0, boxes = []\<rparr>]) = []" by simp
  from zero_detections_valid [OF p e] show ?thesis by auto
qed

subsection \<open>The frame\<close>

text \<open>
  What the source itself does to the buffers: when the detector returns no result, the
  annotated image is the copy made by \<^verbatim>\<open>frame.copy()\<close>, a new buffer with the
  contents of the frame, and no buffer that existed is changed by \<^verbatim>\<open>process_frame\<close>;
  when it returns results, the annotated image is whatever the last \<^verbatim>\<open>plot()\<close>
  returned. Whether the frame survives \<^verbatim>\<open>predict\<close> and \<^verbatim>\<open>plot\<close> is a property
  of the library, which the source does not decide: the lemmas after these two are
  relative to the detector's contract.
\<close>

lemma no_results_returns_copy:
  assumes "predict m predict_kwargs st frame = Inr (st1, [])"
    and "process_frame m st frame = Inr (st', annotated, t)"
  shows "annotated = nxt st1 \<and> mem st' annotated = mem st1 frame
       \<and> (\<forall>a < nxt st1. mem st' a = mem st1 a) \<and> nxt st' = Suc (nxt st1)"
  using assms by (auto simp: process_frame_def np_copy_def alloc_def)

lemma some_result_returns_last_plot:
  assumes "predict m predict_kwargs st frame = Inr (st1, rs @ [r])"
    and "process_frame m st frame = Inr (st', annotated, t)"
  shows "\<exists>s. (st', annotated) = plot m r s"
proof -
  have loop: "\<And>s a u. result_loop m (rs @ [r]) (s, a, u) = Inr (st', annotated, t) \<Longrightarrow>
                 \<exists>s'. (st', annotated) = plot m r s'"
  proof (induction rs)
    case Nil
    obtain s1 a1 where p: "plot m r s = (s1, a1)" by (cases "plot m r s")
    from Nil p have "(st', annotated) = (s1, a1)"
      by (cases "box_loop (names m) (boxes r) u") auto
    with p show ?case by metis
  next
    case (Cons q rs)
    obtain s1 a1 where p: "plot m q s = (s1, a1)" by (cases "plot m q s")
    from Cons.prems p obtain u1 where
      "result_loop m (rs @ [r]) (s1, a1, u1) = Inr (st', annotated, t)"
      by (cases "box_loop (names m) (boxes q) u") auto
    then show ?case by (rule Cons.IH)
  qed
  obtain st2 a where c: "np_copy st1 frame = (st2, a)" by (cases "np_copy st1 frame")
  from assms c have "result_loop m (rs @ [r]) (st2, a, 0, vehicle_types0) = Inr (st', annotated, t)"
    by (simp add: process_frame_def)
  then show ?thesis by (rule loop)
qed

lemma extends_refl: "extends st st"
  by (simp add: extends_def)

lemma extends_trans: "extends st st' \<Longrightarrow> extends st' st'' \<Longrightarrow> extends st st''"
  by (auto simp: extends_def)

lemma alloc_extends:
  assumes "alloc st img = (st', a)"
  shows "extends st st'" and "a = nxt st" and "nxt st' = Suc (nxt st)"
  using assms by (auto simp: alloc_def extends_def)

lemma result_loop_extends:
  assumes "detector_contract m"
    and "result_loop m rs (st, a, t) = Inr (st', a', t')"
  shows "extends st st' \<and> (a' = a \<or> (nxt st \<le> a' \<and> a' < nxt st'))"
  using assms(2)
proof (induction rs arbitrary: st a t)
  case Nil
  then show ?case by (simp add: extends_refl)
next
  case (Cons r rs)
  obtain st1 a1 where p: "plot m r st = (st1, a1)" by (cases "plot m r st")
  from assms(1) p have e1: "extends st st1" and f1: "nxt st \<le> a1" "a1 < nxt st1"
    unfolding detector_contract_def by blast+
  from Cons.prems p obtain t1 where
    rest: "result_loop m rs (st1, a1, t1) = Inr (st', a', t')"
    by (cases "box_loop (names m) (boxes r) t") auto
  from Cons.IH [OF rest] have e2: "extends st1 st'"
    and a2: "a' = a1 \<or> (nxt st1 \<le> a' \<and> a' < nxt st')" by blast+
  from e1 e2 have "extends st st'" by (rule extends_trans)
  moreover have "nxt st \<le> a' \<and> a' < nxt st'"
    using a2 f1 e1 e2 by (auto simp: extends_def)
  ultimately show ?case by blast
qed

text \<open>
  The contract is needed: with a detector that draws on the original image itself, the
  frame is changed and comes back as the annotated image.
\<close>

lemma in_place_plot_changes_frame:
  "process_frame in_place_model store0 0
     = Inr (store0\<lparr>mem := (mem store0)(1 := [1, 2, 3], 0 := []), nxt := 2\<rparr>, 0, 0, vehicle_types0)"
  by (simp add: process_frame_def in_place_model_def np_copy_def alloc_def store0_def)

text \<open>
  Under the detector's contract, \<^verbatim>\<open>process_frame\<close> leaves the buffer of the input
  frame as it was, and the annotated image it returns is another buffer, allocated during
  the call.
\<close>

lemma frame_kept_under_contract:
  assumes "detector_contract m"
    and "frame < nxt st"
    and "process_frame m st frame = Inr (st', annotated, t)"
  shows "mem st' frame = mem st frame \<and> annotated \<noteq> frame
       \<and> nxt st \<le> annotated \<and> annotated < nxt st'"
proof -
  from assms(3) obtain st1 rs where
    p: "predict m predict_kwargs st frame = Inr (st1, rs)"
    by (cases "predict m predict_kwargs st frame") (auto simp: process_frame_def)
  obtain st2 a where c: "np_copy st1 frame = (st2, a)" by (cases "np_copy st1 frame")
  from assms(3) p c have l: "result_loop m rs (st2, a, 0, vehicle_types0) = Inr (st', annotated, t)"
    by (simp add: process_frame_def)
  from assms(1) p have e1: "extends st st1"
    unfolding detector_contract_def by blast
  from c have e2: "extends st1 st2" and a: "a = nxt st1" and n2: "nxt st2 = Suc (nxt st1)"
    unfolding np_copy_def by (rule alloc_extends)+
  from result_loop_extends [OF assms(1) l] have e3: "extends st2 st'"
    and a3: "annotated = a \<or> (nxt st2 \<le> annotated \<and> annotated < nxt st')" by blast+
  have e: "extends st st'" using e1 e2 e3 by (blast intro: extends_trans)
  with assms(2) have "mem st' frame = mem st frame" by (simp add: extends_def)
  moreover have "nxt st \<le> annotated \<and> annotated < nxt st'"
    using a3 a n2 e1 e2 e3 by (auto simp: extends_def)
  ultimately show ?thesis using assms(2) by auto
qed

lemma frame_kept_under_contract_example:
  "detector_contract (fixed_model [a_box 2]) \<and> (0::nat) < nxt store0
 \<and> (case process_frame (fixed_model [a_box 2]) store0 0 of
       Inl e \<Rightarrow> False
     | Inr (st', annotated, t) \<Rightarrow>
         mem st' 0 = [1, 2, 3] \<and> mem store0 0 = [1, 2, 3] \<and> annotated = 2 \<and> nxt st' = 3)"
proof -
  let ?M = "fixed_model [a_box 2]"
  have c: "detector_contract ?M"
    by (auto simp: detector_contract_def fixed_model_sel alloc_def extends_def)
  have f: "(0::nat) < nxt store0" by (simp add: store0_def)
  obtain st' t where r: "process_frame ?M store0 0 = Inr (st', 2, t)" and n: "nxt st' = 3"
    by (simp add: process_frame_def fixed_model_sel np_copy_def alloc_def coco_names_def
        vehicle_types0_def a_box_def store0_def)
  from frame_kept_under_contract [OF c f r] c f r n show ?thesis
    by (simp add: store0_def)
qed

end
